theory Spec2Isabelle
  imports Main "HOL-Library.Sublist"
begin

section \<open>Python text primitives used by the conversion engine\<close>

text \<open>
  A Python \<open>str\<close> is modelled as a \<open>string\<close>, one \<open>char\<close> per code point (code points
  below 256; the degree sign of the rotation combo box is \<open>CHR 0xB0\<close>).
\<close>

fun join :: "string \<Rightarrow> string list \<Rightarrow> string" where
  \<comment> \<open>\<open>sep.join(xs)\<close>\<close>
  "join sep [] = []"
| "join sep [x] = x"
| "join sep (x # y # ys) = x @ sep @ join sep (y # ys)"

fun split_sep :: "char \<Rightarrow> string \<Rightarrow> string list" where
  \<comment> \<open>\<open>s.split(c)\<close> for a one-character separator\<close>
  "split_sep c [] = [[]]"
| "split_sep c (x # xs) =
     (if x = c then [] # split_sep c xs
      else (case split_sep c xs of
              [] \<Rightarrow> [[x]]
            | w # ws \<Rightarrow> (x # w) # ws))"

definition rstrip :: "string \<Rightarrow> string \<Rightarrow> string" where
  \<comment> \<open>\<open>s.rstrip(chars)\<close>\<close>
  "rstrip s chars = rev (dropWhile (\<lambda>c. c \<in> set chars) (rev s))"

definition lower_char :: "char \<Rightarrow> char" where
  "lower_char c =
     (let n = (of_char c :: nat)
      in if (65 \<le> n \<and> n \<le> 90) \<or> (192 \<le> n \<and> n \<le> 222 \<and> n \<noteq> 215)
         then char_of (n + 32) else c)"

definition lower :: "string \<Rightarrow> string" where
  \<comment> \<open>\<open>s.lower()\<close>\<close>
  "lower s = map lower_char s"

fun rfind :: "string \<Rightarrow> char \<Rightarrow> int" where
  \<comment> \<open>\<open>s.rfind(c)\<close>: the highest index of \<open>c\<close>, or -1\<close>
  "rfind [] c = -1"
| "rfind (x # xs) c =
     (let r = rfind xs c
      in if r \<ge> 0 then r + 1 else if x = c then 0 else -1)"

fun str_nat :: "nat \<Rightarrow> string" where
  "str_nat n =
     (if n < 10 then [''0123456789'' ! n]
      else str_nat (n div 10) @ [''0123456789'' ! (n mod 10)])"

declare str_nat.simps [simp del]

definition str_int :: "int \<Rightarrow> string" where
  \<comment> \<open>\<open>str(i)\<close> of a Python integer\<close>
  "str_int i = (if i < 0 then CHR ''-'' # str_nat (nat (- i)) else str_nat (nat i))"

section \<open>\<open>pathlib\<close> paths (POSIX flavour)\<close>

text \<open>
  A pure POSIX path as \<open>pathlib\<close> holds it after parsing: the root (\<open>''''\<close>, \<open>''/''\<close> or
  \<open>''//''\<close>) and the components after it. There is no drive on POSIX, so the anchor is
  the root.
\<close>

record pure_path =
  root :: string
  names :: "string list"

definition splitroot :: "string \<Rightarrow> string \<times> string" where
  "splitroot part =
     (if part \<noteq> [] \<and> hd part = CHR ''/'' then
        (let stripped = dropWhile (\<lambda>c. c = CHR ''/'') part
         in if length part - length stripped = 2 then (''//'', stripped)
            else (''/'', stripped))
      else ('''', part))"

definition Path :: "string \<Rightarrow> pure_path" where
  \<comment> \<open>\<open>Path(s)\<close>: empty components and \<open>.\<close> components are dropped, \<open>..\<close> is kept\<close>
  "Path s =
     (case splitroot s of
        (r, rel) \<Rightarrow>
          \<lparr>root = r, names = filter (\<lambda>x. x \<noteq> [] \<and> x \<noteq> ''.'') (split_sep CHR ''/'' rel)\<rparr>)"

definition str_path :: "pure_path \<Rightarrow> string" where
  \<comment> \<open>\<open>str(p)\<close>\<close>
  "str_path p =
     (if root p = [] \<and> names p = [] then ''.''
      else root p @ join ''/'' (names p))"

definition joinpath :: "pure_path \<Rightarrow> pure_path \<Rightarrow> pure_path" where
  \<comment> \<open>\<open>p / q\<close>: a rooted right operand replaces the left one\<close>
  "joinpath p q =
     (if root q \<noteq> [] then q else \<lparr>root = root p, names = names p @ names q\<rparr>)"

definition parent :: "pure_path \<Rightarrow> pure_path" where
  \<comment> \<open>\<open>p.parent\<close>: the path without its last component; a bare root or \<open>.\<close> is its own parent\<close>
  "parent p = \<lparr>root = root p, names = butlast (names p)\<rparr>"

definition anchor :: "pure_path \<Rightarrow> string" where
  "anchor p = root p"

definition name :: "pure_path \<Rightarrow> string" where
  \<comment> \<open>\<open>p.name\<close>: the last component, or the empty string when there is none\<close>
  "name p = (if names p = [] then [] else last (names p))"

definition stem :: "pure_path \<Rightarrow> string" where
  \<comment> \<open>\<open>p.stem\<close>: the name without its last suffix\<close>
  "stem p =
     (let nm = name p; i = rfind nm CHR ''.''
      in if 0 < i \<and> i < int (length nm) - 1 then take (nat i) nm else nm)"

datatype build_error = ValueError | OSError string

definition relative_to :: "pure_path \<Rightarrow> pure_path \<Rightarrow> build_error + pure_path" where
  \<comment> \<open>\<open>p.relative_to(other)\<close>: raises \<open>ValueError\<close> unless \<open>other\<close> is a prefix of \<open>p\<close>\<close>
  "relative_to p other =
     (if root p = root other \<and> prefix (names other) (names p)
      then Inr \<lparr>root = [], names = drop (length (names other)) (names p)\<rparr>
      else Inl ValueError)"

section \<open>The Command Builder: \<open>ImprovedGMConvertGUI.build_commands\<close>\<close>

text \<open>
  The two combo boxes are not editable, so their current text is one of the items that
  \<open>initUI\<close> adds to them.
\<close>

datatype format_item = Jpg | Png | Webp | Tiff | Bmp | Same_as_input

fun format_currentText :: "format_item \<Rightarrow> string" where
  "format_currentText Jpg = ''jpg''"
| "format_currentText Png = ''png''"
| "format_currentText Webp = ''webp''"
| "format_currentText Tiff = ''tiff''"
| "format_currentText Bmp = ''bmp''"
| "format_currentText Same_as_input = ''Same as input''"

datatype rotate_item = Rot0 | Rot90 | Rot180 | Rot270

fun rotate_currentText :: "rotate_item \<Rightarrow> string" where
  "rotate_currentText Rot0 = [CHR ''0'', CHR 0xB0]"
| "rotate_currentText Rot90 = [CHR ''9'', CHR ''0'', CHR 0xB0]"
| "rotate_currentText Rot180 = [CHR ''1'', CHR ''8'', CHR ''0'', CHR 0xB0]"
| "rotate_currentText Rot270 = [CHR ''2'', CHR ''7'', CHR ''0'', CHR 0xB0]"

text \<open>The widget state that \<open>build_commands\<close> reads.\<close>

record gui =
  input_files :: "string list"
  output_dir :: string
  chk_preserve_structure :: bool
  format_combo :: format_item
  quality_spin :: int
  rotate_combo :: rotate_item
  flip_check :: bool
  flop_check :: bool
  resize_check :: bool
  width_spin :: int
  height_spin :: int
  aspect_check :: bool
  chk_color_profile :: bool

definition output_format :: "gui \<Rightarrow> string option" where
  \<comment> \<open>lines 306-308; \<open>None\<close> is "Same as input"\<close>
  "output_format w =
     (let t = lower (format_currentText (format_combo w))
      in if t = ''same as input'' then None else Some t)"

definition output_dir_for :: "gui \<Rightarrow> pure_path \<Rightarrow> build_error + pure_path" where
  \<comment> \<open>lines 312-315: the value of \<open>output_path\<close> before \<open>mkdir\<close>\<close>
  "output_dir_for w input_path =
     (let output_path = Path (output_dir w)
      in if chk_preserve_structure w then
           (case relative_to (parent input_path) (Path (anchor input_path)) of
              Inl e \<Rightarrow> Inl e
            | Inr rel \<Rightarrow> Inr (joinpath output_path rel))
         else Inr output_path)"

definition output_file_for :: "gui \<Rightarrow> pure_path \<Rightarrow> pure_path \<Rightarrow> pure_path" where
  \<comment> \<open>lines 319-322; a \<open>None\<close> or empty format is falsy\<close>
  "output_file_for w input_path output_path =
     (case output_format w of
        None \<Rightarrow> joinpath output_path (Path (name input_path))
      | Some f \<Rightarrow>
          if f \<noteq> [] then joinpath output_path (Path (stem input_path @ ''.'' @ f))
          else joinpath output_path (Path (name input_path)))"

definition cmd_for :: "gui \<Rightarrow> pure_path \<Rightarrow> pure_path \<Rightarrow> string list" where
  \<comment> \<open>lines 324-348\<close>
  "cmd_for w input_path output_file =
     (let cmd = [''gm'', ''convert'', str_path input_path];
          cmd = (if resize_check w then
                   (let cmd = cmd @ [''-resize'',
                                     str_int (width_spin w) @ ''x'' @ str_int (height_spin w)]
                    in if aspect_check w
                       then cmd @ [''-filter'', ''Lanczos'', ''-unsharp'', ''0.25x0.25+8+0.065'']
                       else cmd)
                 else cmd);
          rotation = rstrip (rotate_currentText (rotate_combo w)) [CHR 0xB0];
          cmd = (if rotation \<noteq> ''0'' then cmd @ [''-rotate'', rotation] else cmd);
          cmd = (if flip_check w then cmd @ [''-flip''] else cmd);
          cmd = (if flop_check w then cmd @ [''-flop''] else cmd);
          cmd = (if output_format w \<in> {Some ''jpg'', Some ''webp'', Some ''tiff''}
                 then cmd @ [''-quality'', str_int (quality_spin w)] else cmd);
          cmd = (if chk_color_profile w then cmd @ [''-profile'', ''RGB.icm''] else cmd)
      in cmd @ [str_path output_file])"

text \<open>
  \<open>output_path.mkdir(parents=True, exist_ok=True)\<close> acts on the file system, which is a
  parameter: \<open>mkdir fs p\<close> is the file system after the call, or the text of the
  \<open>OSError\<close> it raises. An exception leaves \<open>build_commands\<close> at once.
\<close>

fun build_loop ::
  "('fs \<Rightarrow> pure_path \<Rightarrow> string + 'fs) \<Rightarrow> gui \<Rightarrow> string list \<Rightarrow> string list list \<Rightarrow> 'fs
     \<Rightarrow> build_error + string list list \<times> 'fs" where
  "build_loop mkdir w [] commands fs = Inr (commands, fs)"
| "build_loop mkdir w (input_path # rest) commands fs =
     (let input_path = Path input_path
      in case output_dir_for w input_path of
           Inl e \<Rightarrow> Inl e
         | Inr output_path \<Rightarrow>
             (case mkdir fs output_path of
                Inl msg \<Rightarrow> Inl (OSError msg)
              | Inr fs' \<Rightarrow>
                  build_loop mkdir w rest
                    (commands @ [cmd_for w input_path (output_file_for w input_path output_path)])
                    fs'))"

definition build_commands ::
  "('fs \<Rightarrow> pure_path \<Rightarrow> string + 'fs) \<Rightarrow> gui \<Rightarrow> 'fs \<Rightarrow> build_error + string list list \<times> 'fs" where
  "build_commands mkdir w fs = build_loop mkdir w (input_files w) [] fs"

text \<open>
  The filter of \<open>dropEvent\<close> (lines 258-259): a dropped file is kept when its lowered
  path ends with one of the recognised extensions.
\<close>

definition valid_extensions :: "string list" where
  "valid_extensions = [''.png'', ''.jpg'', ''.jpeg'', ''.bmp'', ''.tiff'', ''.webp'']"

definition endswith :: "string \<Rightarrow> string list \<Rightarrow> bool" where
  \<comment> \<open>\<open>s.endswith(sufs)\<close> for a tuple of suffixes\<close>
  "endswith s sufs = (\<exists>x\<in>set sufs. suffix x s)"

definition accepted :: "string \<Rightarrow> bool" where
  "accepted f = endswith (lower f) valid_extensions"

section \<open>The Batch Executor: \<open>EnhancedConvertWorker.run\<close>\<close>

datatype event =
    Current_file string
  | Output_received string
  | Progress_incremented
  | Finished bool string

text \<open>
  What \<open>subprocess.run(cmd_parts, check=True, ...)\<close> does: it returns with the captured
  output, raises \<open>CalledProcessError\<close> (non-zero exit status) with the captured output, or
  raises another exception, of which the worker only uses \<open>str(e)\<close>.
\<close>

datatype process_result =
    CompletedProcess string
  | CalledProcessError string
  | OtherException string



text \<open>
  The worker's surroundings: whether \<open>mkdir\<close> of the output directory raises (and the text
  of the exception), the value of \<open>_is_running\<close> read at the start of iteration \<open>idx\<close>
  (\<open>stop\<close> clears it from another thread), and the outcome of the external tool at
  iteration \<open>idx\<close>.
\<close>

record env =
  mkdir_raises :: "string \<Rightarrow> string option"
  is_running :: "nat \<Rightarrow> bool"
  subprocess_run :: "nat \<Rightarrow> string list \<Rightarrow> process_result"

text \<open>
  The worker's local variables, the signals emitted so far and the argument lists handed
  to \<open>subprocess.run\<close> so far, both oldest first.
\<close>

record worker =
  success :: bool
  error_msg :: string
  emitted :: "event list"
  invoked :: "string list list"

definition emit :: "event \<Rightarrow> worker \<Rightarrow> worker" where
  "emit e s = s\<lparr>emitted := emitted s @ [e]\<rparr>"

definition executing_line :: "nat \<Rightarrow> nat \<Rightarrow> string list \<Rightarrow> string" where
  \<comment> \<open>line 36; \<open>total_cmds\<close> is the variable \<open>total\<close> of the source\<close>
  "executing_line idx total_cmds cmd_parts =
     ''['' @ str_nat (idx + 1) @ ''/'' @ str_nat total_cmds @ ''] Executing: ''
       @ join '' '' cmd_parts @ [CHR 0x0A]"

text \<open>
  The \<open>for\<close> loop of lines 32-53. The result is the worker state when the loop is left
  and, when it is left by an exception that the inner \<open>try\<close> does not catch, the text of
  that exception. \<open>cmd_parts[-1]\<close> raises \<open>IndexError\<close> on an empty argument list.
\<close>

fun for_loop :: "env \<Rightarrow> nat \<Rightarrow> nat \<Rightarrow> string list list \<Rightarrow> worker \<Rightarrow> worker \<times> string option" where
  "for_loop e total_cmds idx [] s = (s, None)"
| "for_loop e total_cmds idx (cmd_parts # rest) s =
     (if \<not> is_running e idx then (s, None)
      else if cmd_parts = [] then (s, Some ''list index out of range'')
      else
        (let s = emit (Current_file (last cmd_parts)) s;
             s = emit (Output_received (executing_line idx total_cmds cmd_parts)) s;
             s = s\<lparr>invoked := invoked s @ [cmd_parts]\<rparr>
         in case subprocess_run e idx cmd_parts of
              CompletedProcess stdout \<Rightarrow>
                for_loop e total_cmds (Suc idx) rest
                  (emit Progress_incremented (emit (Output_received stdout) s))
            | CalledProcessError output \<Rightarrow>
                ((emit (Output_received (''Error: '' @ output)) s)
                   \<lparr>success := False, error_msg := ''Failed to process '' @ last cmd_parts\<rparr>,
                 None)
            | OtherException msg \<Rightarrow> (s, Some msg)))"

definition run :: "env \<Rightarrow> string list list \<Rightarrow> string \<Rightarrow> worker" where
  \<comment> \<open>lines 26-59, for \<open>self.commands = commands\<close> and \<open>self.output_dir = dir\<close>\<close>
  "run e commands dir =
     (let s = \<lparr>success = True, error_msg = [], emitted = [], invoked = []\<rparr>;
          (s, exc) = (case mkdir_raises e dir of
                        Some msg \<Rightarrow> (s, Some msg)
                      | None \<Rightarrow> for_loop e (length commands) 0 commands s);
          s = (case exc of
                 None \<Rightarrow> s
               | Some msg \<Rightarrow>
                   emit (Output_received (''Critical Error: '' @ msg))
                     (s\<lparr>error_msg := msg, success := False\<rparr>))
      in emit (Finished (success s) (error_msg s)) s)"

section \<open>Notions used to state the properties\<close>

text \<open>
  One pass of the loop body of \<open>build_commands\<close> for the input \<open>f\<close>, without the
  \<open>mkdir\<close> call: the invocation that the loop appends for \<open>f\<close>.
\<close>

definition invocation_for :: "gui \<Rightarrow> string \<Rightarrow> build_error + string list" where
  "invocation_for w f =
     (let input_path = Path f
      in case output_dir_for w input_path of
           Inl e \<Rightarrow> Inl e
         | Inr output_path \<Rightarrow>
             Inr (cmd_for w input_path (output_file_for w input_path output_path)))"

text \<open>The arguments that lines 326-346 put between the source and the destination.\<close>

definition options :: "gui \<Rightarrow> string list" where
  "options w =
     (if resize_check w then
        [''-resize'', str_int (width_spin w) @ ''x'' @ str_int (height_spin w)]
          @ (if aspect_check w
             then [''-filter'', ''Lanczos'', ''-unsharp'', ''0.25x0.25+8+0.065''] else [])
      else [])
     @ (case rotate_combo w of
          Rot0 \<Rightarrow> []
        | Rot90 \<Rightarrow> [''-rotate'', ''90'']
        | Rot180 \<Rightarrow> [''-rotate'', ''180'']
        | Rot270 \<Rightarrow> [''-rotate'', ''270''])
     @ (if flip_check w then [''-flip''] else [])
     @ (if flop_check w then [''-flop''] else [])
     @ (if format_combo w \<in> {Jpg, Webp, Tiff}
        then [''-quality'', str_int (quality_spin w)] else [])
     @ (if chk_color_profile w then [''-profile'', ''RGB.icm''] else [])"

text \<open>
  The paths that \<open>pathlib\<close> produces: a root of at most two slashes, and components that
  are neither empty nor \<open>.\<close> and hold no slash.
\<close>

definition wf_path :: "pure_path \<Rightarrow> bool" where
  "wf_path p \<longleftrightarrow>
     (root p = [] \<or> root p = ''/'' \<or> root p = ''//'') \<and>
     (\<forall>x\<in>set (names p). x \<noteq> [] \<and> x \<noteq> ''.'' \<and> CHR ''/'' \<notin> set x)"

fun is_finished :: "event \<Rightarrow> bool" where
  "is_finished (Finished ok msg) = True"
| "is_finished _ = False"

fun is_completed :: "process_result \<Rightarrow> bool" where
  "is_completed (CompletedProcess out) = True"
| "is_completed _ = False"

fun stdout_of :: "process_result \<Rightarrow> string" where
  "stdout_of (CompletedProcess out) = out"
| "stdout_of (CalledProcessError out) = out"
| "stdout_of (OtherException msg) = []"

text \<open>
  \<open>all_complete e idx cs\<close>: the iterations \<open>idx\<close>, \<open>idx + 1\<close>, ... over the argument lists
  \<open>cs\<close> each find the stop flag clear and a non-empty argument list, and the tool exits
  with status zero. \<open>completed_events\<close> is what those iterations emit.
\<close>

fun all_complete :: "env \<Rightarrow> nat \<Rightarrow> string list list \<Rightarrow> bool" where
  "all_complete e idx [] = True"
| "all_complete e idx (c # cs) =
     (is_running e idx \<and> c \<noteq> [] \<and> is_completed (subprocess_run e idx c)
      \<and> all_complete e (Suc idx) cs)"

fun completed_events :: "env \<Rightarrow> nat \<Rightarrow> nat \<Rightarrow> string list list \<Rightarrow> event list" where
  "completed_events e n idx [] = []"
| "completed_events e n idx (c # cs) =
     [Current_file (last c), Output_received (executing_line idx n c),
      Output_received (stdout_of (subprocess_run e idx c)), Progress_incremented]
     @ completed_events e n (Suc idx) cs"

subsection \<open>Example inputs\<close>

text \<open>A file system on which every \<open>mkdir\<close> succeeds.\<close>

definition mkdir_ok :: "unit \<Rightarrow> pure_path \<Rightarrow> string + unit" where
  "mkdir_ok fs p = Inr fs"

text \<open>Two files to \<open>webp\<close> at quality 80 into \<open>/out\<close>, nothing else selected.\<close>

definition webp_gui :: gui where
  "webp_gui =
     \<lparr>input_files = [''/in/a.png'', ''/in/b.jpg''], output_dir = ''/out'',
      chk_preserve_structure = False, format_combo = Webp, quality_spin = 80,
      rotate_combo = Rot0, flip_check = False, flop_check = False, resize_check = False,
      width_spin = 1, height_spin = 1, aspect_check = True, chk_color_profile = False\<rparr>"

text \<open>One file, format unchanged, rotated by 90 degrees and flipped.\<close>

definition rotate_gui :: gui where
  "rotate_gui =
     \<lparr>input_files = [''/in/a.png''], output_dir = ''/out'',
      chk_preserve_structure = False, format_combo = Same_as_input, quality_spin = 90,
      rotate_combo = Rot90, flip_check = True, flop_check = False, resize_check = False,
      width_spin = 1, height_spin = 1, aspect_check = True, chk_color_profile = False\<rparr>"

text \<open>Two files to \<open>png\<close>, mirroring the source tree under \<open>/out\<close>.\<close>

definition mirror_gui :: gui where
  "mirror_gui =
     \<lparr>input_files = [''/home/u/pics/a.jpg'', ''/srv/b.bmp''], output_dir = ''/out'',
      chk_preserve_structure = True, format_combo = Png, quality_spin = 90,
      rotate_combo = Rot0, flip_check = False, flop_check = False, resize_check = False,
      width_spin = 1, height_spin = 1, aspect_check = True, chk_color_profile = False\<rparr>"

text \<open>The plans that \<open>build_commands\<close> returns for these three windows.\<close>

definition webp_plan :: "string list list" where
  "webp_plan =
     [[''gm'', ''convert'', ''/in/a.png'', ''-quality'', ''80'', ''/out/a.webp''],
      [''gm'', ''convert'', ''/in/b.jpg'', ''-quality'', ''80'', ''/out/b.webp'']]"

definition rotate_plan :: "string list list" where
  "rotate_plan =
     [[''gm'', ''convert'', ''/in/a.png'', ''-rotate'', ''90'', ''-flip'', ''/out/a.png'']]"

definition mirror_plan :: "string list list" where
  "mirror_plan =
     [[''gm'', ''convert'', ''/home/u/pics/a.jpg'', ''/out/home/u/pics/a.png''],
      [''gm'', ''convert'', ''/srv/b.bmp'', ''/out/srv/b.png'']]"

text \<open>A file system that records the directories asked for, every \<open>mkdir\<close> succeeding.\<close>

definition mkdir_log :: "pure_path list \<Rightarrow> pure_path \<Rightarrow> string + pure_path list" where
  "mkdir_log fs p = Inr (fs @ [p])"

text \<open>A plan of three invocations and the surroundings of four runs.\<close>

definition three_cmds :: "string list list" where
  "three_cmds =
     [[''gm'', ''convert'', ''/in/a.png'', ''/out/a.jpg''],
      [''gm'', ''convert'', ''/in/b.png'', ''/out/b.jpg''],
      [''gm'', ''convert'', ''/in/c.png'', ''/out/c.jpg'']]"

definition no_raise :: "string \<Rightarrow> string option" where
  "no_raise d = None"

definition always_running :: "nat \<Rightarrow> bool" where
  "always_running idx = True"

definition never_running :: "nat \<Rightarrow> bool" where
  "never_running idx = False"

definition running_before_2 :: "nat \<Rightarrow> bool" where
  "running_before_2 idx = (idx < 2)"

definition tool_ok :: "nat \<Rightarrow> string list \<Rightarrow> process_result" where
  "tool_ok idx cmd_parts = CompletedProcess ''done''"

definition tool_fails_at_1 :: "nat \<Rightarrow> string list \<Rightarrow> process_result" where
  "tool_fails_at_1 idx cmd_parts =
     (if idx = 1 then CalledProcessError ''gm convert: Unable to open file''
      else CompletedProcess ''done'')"

definition env_ok :: env where
  "env_ok = \<lparr>mkdir_raises = no_raise, is_running = always_running, subprocess_run = tool_ok\<rparr>"

definition env_fail :: env where
  "env_fail =
     \<lparr>mkdir_raises = no_raise, is_running = always_running, subprocess_run = tool_fails_at_1\<rparr>"

definition env_stopped :: env where
  "env_stopped = \<lparr>mkdir_raises = no_raise, is_running = never_running, subprocess_run = tool_ok\<rparr>"

definition env_stop_at_2 :: env where
  "env_stop_at_2 =
     \<lparr>mkdir_raises = no_raise, is_running = running_before_2, subprocess_run = tool_ok\<rparr>"




section \<open>Paths\<close>


lemma root_Path: "root (Path s) = [] \<or> root (Path s) = ''/'' \<or> root (Path s) = ''//''"
  by (simp add: Path_def splitroot_def Let_def)

lemma Path_of_root:
  "r = [] \<or> r = ''/'' \<or> r = ''//'' \<Longrightarrow> Path r = \<lparr>root = r, names = []\<rparr>"
  by (auto simp: Path_def splitroot_def)

lemma relative_to_anchor:
  "relative_to (parent (Path s)) (Path (anchor (Path s)))
     = Inr \<lparr>root = [], names = butlast (names (Path s))\<rparr>"
  using root_Path [of s]
  by (simp add: anchor_def Path_of_root relative_to_def parent_def)

lemma output_dir_for_Path:
  "output_dir_for w (Path s) =
     Inr (if chk_preserve_structure w
          then joinpath (Path (output_dir w)) \<lparr>root = [], names = butlast (names (Path s))\<rparr>
          else Path (output_dir w))"
  by (simp add: output_dir_for_def relative_to_anchor)

lemma build_loop_Inr:
  "build_loop mk w xs acc fs = Inr (plan, fs') \<Longrightarrow>
     map Inr plan = map Inr acc @ map (invocation_for w) xs"
proof (induction xs arbitrary: acc fs)
  case Nil
  then show ?case by simp
next
  case (Cons x xs)
  then show ?case
    by (auto simp: Let_def output_dir_for_Path invocation_for_def split: sum.splits)
qed

lemma build_loop_total:
  assumes "\<And>fs p. \<exists>fs'. mk fs p = Inr fs'"
  shows "\<exists>plan fs'. build_loop mk w xs acc fs = Inr (plan, fs')"
proof (induction xs arbitrary: acc fs)
  case Nil
  then show ?case by simp
next
  case (Cons x xs)
  obtain fs1 where "mk fs (projr (output_dir_for w (Path x))) = Inr fs1"
    using assms by blast
  then show ?case using Cons.IH
    by (simp add: Let_def output_dir_for_Path)
qed

lemma split_sep_no_sep: "c \<notin> set x \<Longrightarrow> split_sep c x = [x]"
  by (induction x) auto

lemma split_sep_append: "c \<notin> set x \<Longrightarrow> split_sep c (x @ c # rest) = x # split_sep c rest"
  by (induction x) auto

lemma split_sep_join:
  "xs \<noteq> [] \<Longrightarrow> \<forall>x\<in>set xs. c \<notin> set x \<Longrightarrow> split_sep c (join [c] xs) = xs"
  by (induction "[c]" xs rule: join.induct) (simp_all add: split_sep_no_sep split_sep_append)

lemma split_sep_parts: "x \<in> set (split_sep c s) \<Longrightarrow> c \<notin> set x"
  by (induction s arbitrary: x) (auto split: if_splits list.splits)

lemma wf_Path: "wf_path (Path s)"
  using root_Path [of s]
  by (auto simp: wf_path_def Path_def split: prod.splits dest: split_sep_parts)

lemma wf_joinpath: "wf_path p \<Longrightarrow> wf_path q \<Longrightarrow> wf_path (joinpath p q)"
  by (auto simp: wf_path_def joinpath_def)

lemma wf_parent: "wf_path p \<Longrightarrow> wf_path (parent p)"
  by (auto simp: wf_path_def parent_def dest: in_set_butlastD)

lemma join_Nil_iff: "join sep ns = [] \<Longrightarrow> \<forall>x\<in>set ns. x \<noteq> [] \<Longrightarrow> ns = []"
  by (induction sep ns rule: join.induct) auto

lemma hd_join: "ns \<noteq> [] \<Longrightarrow> hd ns \<noteq> [] \<Longrightarrow> hd (join sep ns) = hd (hd ns)"
  by (induction sep ns rule: join.induct) auto

lemma join_no_leading_sep:
  assumes "\<forall>x\<in>set ns. x \<noteq> [] \<and> x \<noteq> ''.'' \<and> CHR ''/'' \<notin> set x"
  shows "join ''/'' ns = [] \<or> hd (join ''/'' ns) \<noteq> CHR ''/''"
proof (cases ns)
  case Nil
  then show ?thesis by simp
next
  case (Cons x xs)
  with assms have "x \<noteq> []" "CHR ''/'' \<notin> set x" by auto
  then have "hd x \<noteq> CHR ''/''" using hd_in_set by metis
  moreover have "hd (join ''/'' ns) = hd x" using Cons \<open>x \<noteq> []\<close> hd_join [of ns "''/''"] by simp
  ultimately show ?thesis by simp
qed

lemma dropWhile_no_leading: "rel = [] \<or> hd rel \<noteq> c \<Longrightarrow> dropWhile (\<lambda>x. x = c) rel = rel"
  by (cases rel) auto

lemma splitroot_rel:
  assumes "r = [] \<or> r = ''/'' \<or> r = ''//''" and "rel = [] \<or> hd rel \<noteq> CHR ''/''"
  shows "splitroot (r @ rel) = (r, rel)"
  using assms dropWhile_no_leading [of rel "CHR ''/''"]
  by (auto simp: splitroot_def Let_def)

lemma names_of_join:
  assumes "\<forall>x\<in>set ns. x \<noteq> [] \<and> x \<noteq> ''.'' \<and> CHR ''/'' \<notin> set x"
  shows "filter (\<lambda>x. x \<noteq> [] \<and> x \<noteq> ''.'') (split_sep CHR ''/'' (join ''/'' ns)) = ns"
proof (cases "ns = []")
  case True
  then show ?thesis by simp
next
  case False
  then have "split_sep CHR ''/'' (join ''/'' ns) = ns"
    using assms split_sep_join [of ns "CHR ''/''"] by simp
  then show ?thesis using assms by (simp add: filter_id_conv)
qed

lemma Path_str_path: "wf_path p \<Longrightarrow> Path (str_path p) = p"
proof -
  assume wf: "wf_path p"
  then have ns: "\<forall>x\<in>set (names p). x \<noteq> [] \<and> x \<noteq> ''.'' \<and> CHR ''/'' \<notin> set x"
    and r: "root p = [] \<or> root p = ''/'' \<or> root p = ''//''"
    by (auto simp: wf_path_def)
  show ?thesis
  proof (cases "root p = [] \<and> names p = []")
    case True
    then have "Path (str_path p) = \<lparr>root = [], names = []\<rparr>"
      by (simp add: str_path_def Path_def splitroot_def)
    then show ?thesis using True by simp
  next
    case False
    have "splitroot (root p @ join ''/'' (names p)) = (root p, join ''/'' (names p))"
      using splitroot_rel [OF r join_no_leading_sep [OF ns]] .
    then show ?thesis using False names_of_join [OF ns]
      by (auto simp: str_path_def Path_def)
  qed
qed

lemma Path_single:
  assumes "nm \<noteq> []" "nm \<noteq> ''.''" "CHR ''/'' \<notin> set nm"
  shows "Path nm = \<lparr>root = [], names = [nm]\<rparr>"
proof -
  have "hd nm \<noteq> CHR ''/''" using assms hd_in_set by metis
  then have "splitroot nm = ([], nm)" by (simp add: splitroot_def)
  then show ?thesis using assms by (simp add: Path_def split_sep_no_sep)
qed

lemma parent_joinpath_single:
  "parent (joinpath d \<lparr>root = [], names = [nm]\<rparr>) = d"
  by (simp add: parent_def joinpath_def)

subsection \<open>Every accepted file has a file name\<close>

lemma lower_char_fixed: "lower_char CHR ''/'' = CHR ''/''" "lower_char CHR ''.'' = CHR ''.''"
  by code_simp+

lemma accepted_last:
  assumes "accepted f"
  shows "f \<noteq> [] \<and> last f \<noteq> CHR ''/'' \<and> last f \<noteq> CHR ''.''"
proof -
  from assms obtain x zs where x: "x \<in> set valid_extensions" and l: "lower f = zs @ x"
    by (auto simp: accepted_def endswith_def suffix_def)
  from x have xl: "x \<noteq> [] \<and> last x \<noteq> CHR ''/'' \<and> last x \<noteq> CHR ''.''"
    by (auto simp: valid_extensions_def)
  with l have ne: "lower f \<noteq> []" and la: "last (lower f) = last x" by simp_all
  from ne have f: "f \<noteq> []" by (simp add: lower_def)
  then have "last (lower f) = lower_char (last f)" by (simp add: lower_def last_map)
  with la xl have "lower_char (last f) \<noteq> CHR ''/''" "lower_char (last f) \<noteq> CHR ''.''"
    by simp_all
  then have "last f \<noteq> CHR ''/'' \<and> last f \<noteq> CHR ''.''"
    using lower_char_fixed by metis
  with f show ?thesis by simp
qed

lemma split_sep_nonempty: "split_sep c s \<noteq> []"
  by (cases s) (auto split: list.splits)

lemma last_split_sep:
  "s \<noteq> [] \<Longrightarrow> last s \<noteq> c \<Longrightarrow>
     last (split_sep c s) \<noteq> [] \<and> last (last (split_sep c s)) = last s"
proof (induction s)
  case Nil
  then show ?case by simp
next
  case (Cons x xs)
  show ?case
  proof (cases "xs = []")
    case True
    with Cons.prems show ?thesis by simp
  next
    case False
    with Cons.prems have "last xs \<noteq> c" by simp
    with False Cons.IH have IH: "last (split_sep c xs) \<noteq> []"
        "last (last (split_sep c xs)) = last xs"
      by simp_all
    obtain w ws where ws: "split_sep c xs = w # ws"
      using split_sep_nonempty [of c xs] by (cases "split_sep c xs") auto
    show ?thesis using IH False ws split_sep_nonempty [of c xs]
      by (cases "ws = []") (auto)
  qed
qed

lemma last_dropWhile:
  "s \<noteq> [] \<Longrightarrow> \<not> P (last s) \<Longrightarrow> dropWhile P s \<noteq> [] \<and> last (dropWhile P s) = last s"
  by (induction s) (auto split: if_splits)

lemma last_filter_keep:
  "xs \<noteq> [] \<Longrightarrow> P (last xs) \<Longrightarrow> last (filter P xs) = last xs"
proof (induction xs)
  case Nil
  then show ?case by simp
next
  case (Cons x xs)
  show ?case
  proof (cases "xs = []")
    case True
    with Cons.prems show ?thesis by simp
  next
    case False
    with Cons.prems have p: "P (last xs)" by simp
    then have "filter P xs \<noteq> []"
      using last_in_set [OF False] by (auto simp: filter_empty_conv)
    then show ?thesis using Cons.IH [OF False p] False by simp
  qed
qed

lemma has_name:
  assumes "f \<noteq> []" and "last f \<noteq> CHR ''/''" and "last f \<noteq> CHR ''.''"
  shows "name (Path f) \<noteq> []"
proof -
  obtain r rel where sr: "splitroot f = (r, rel)" by (cases "splitroot f") auto
  have rel: "rel \<noteq> [] \<and> last rel = last f"
    using sr assms(1,2) last_dropWhile [of f "\<lambda>c. c = CHR ''/''"]
    by (auto simp: splitroot_def Let_def split: if_splits)
  let ?parts = "split_sep CHR ''/'' rel"
  let ?ok = "\<lambda>x. x \<noteq> [] \<and> x \<noteq> ''.''"
  have l: "last ?parts \<noteq> [] \<and> last (last ?parts) = last f"
    using last_split_sep [of rel "CHR ''/''"] rel assms(2) by simp
  then have ok: "?ok (last ?parts)" using assms(3) by auto
  have ne: "?parts \<noteq> []" by (rule split_sep_nonempty)
  have fne: "filter ?ok ?parts \<noteq> []"
    using ok last_in_set [OF ne] by (auto simp: filter_empty_conv)
  have "last (filter ?ok ?parts) = last ?parts" using ne ok by (rule last_filter_keep)
  then show ?thesis using sr fne l by (simp add: name_def Path_def)
qed

lemma accepted_has_name: "accepted f \<Longrightarrow> name (Path f) \<noteq> []"
  using accepted_last [of f] has_name [of f] by blast

section \<open>The shape of an invocation\<close>

lemma lower_items:
  "lower ''jpg'' = ''jpg''" "lower ''png'' = ''png''" "lower ''webp'' = ''webp''"
  "lower ''tiff'' = ''tiff''" "lower ''bmp'' = ''bmp''" "lower ''Same as input'' = ''same as input''"
  by code_simp+

lemma output_format_cases:
  "output_format w =
     (case format_combo w of
        Jpg \<Rightarrow> Some ''jpg'' | Png \<Rightarrow> Some ''png'' | Webp \<Rightarrow> Some ''webp''
      | Tiff \<Rightarrow> Some ''tiff'' | Bmp \<Rightarrow> Some ''bmp'' | Same_as_input \<Rightarrow> None)"
  by (cases "format_combo w") (simp_all add: output_format_def lower_items)

lemma rotation_cases:
  "rstrip (rotate_currentText r) [CHR 0xB0] =
     (case r of Rot0 \<Rightarrow> ''0'' | Rot90 \<Rightarrow> ''90'' | Rot180 \<Rightarrow> ''180'' | Rot270 \<Rightarrow> ''270'')"
  by (cases r) (simp_all add: rstrip_def)

lemma lossy_format_iff:
  "output_format w \<in> {Some ''jpg'', Some ''webp'', Some ''tiff''}
     \<longleftrightarrow> format_combo w \<in> {Jpg, Webp, Tiff}"
  by (cases "format_combo w") (simp_all add: output_format_cases)

lemma cmd_for_eq:
  "cmd_for w ip out = [''gm'', ''convert'', str_path ip] @ options w @ [str_path out]"
  unfolding cmd_for_def Let_def rotation_cases lossy_format_iff options_def
  by (cases "rotate_combo w") simp_all

lemma str_nat_nonempty: "str_nat n \<noteq> []"
  by (subst str_nat.simps) simp

lemma digit_nth: "m < 10 \<Longrightarrow> ''0123456789'' ! m \<in> set ''0123456789''"
  by (rule nth_mem) simp

lemma str_nat_digits: "set (str_nat n) \<subseteq> set ''0123456789''"
proof (induction n rule: str_nat.induct)
  case (1 n)
  show ?case
  proof (cases "n < 10")
    case True
    then show ?thesis using digit_nth [of n] by (subst str_nat.simps) simp
  next
    case False
    have "n mod 10 < 10" by simp
    then show ?thesis using False 1 digit_nth [of "n mod 10"]
      by (subst str_nat.simps) simp
  qed
qed

lemma hd_str_nat: "hd (str_nat n) \<in> set ''0123456789''"
  using str_nat_digits [of n] str_nat_nonempty [of n] hd_in_set by blast

lemma hd_geometry: "hd (str_nat n @ rest) \<noteq> CHR ''q'' \<and> hd (str_nat n @ rest) \<noteq> CHR ''-''"
  using hd_str_nat [of n] str_nat_nonempty [of n] by (auto simp: hd_append)

lemma geometry_not_quality: "str_int a @ ''x'' @ str_int b \<noteq> ''-quality''"
proof
  assume eq: "str_int a @ ''x'' @ str_int b = ''-quality''"
  show False
  proof (cases "a < 0")
    case True
    with eq have "str_nat (nat (- a)) @ (''x'' @ str_int b) = ''quality''"
      by (simp add: str_int_def)
    then have "hd (str_nat (nat (- a)) @ (''x'' @ str_int b)) = CHR ''q''" by simp
    then show False using hd_geometry by blast
  next
    case False
    with eq have "str_nat (nat a) @ (''x'' @ str_int b) = ''-quality''"
      by (simp add: str_int_def)
    then have "hd (str_nat (nat a) @ (''x'' @ str_int b)) = CHR ''-''" by simp
    then show False using hd_geometry by blast
  qed
qed

lemma quality_in_options:
  "''-quality'' \<in> set (options w) \<longleftrightarrow> format_combo w \<in> {Jpg, Webp, Tiff}"
  using geometry_not_quality [of "width_spin w" "height_spin w"]
  by (cases "rotate_combo w") (auto simp: options_def)

section \<open>The executor loop\<close>

lemma for_loop_prefix:
  "all_complete e idx pre \<Longrightarrow>
   for_loop e n idx (pre @ rest) s =
     for_loop e n (idx + length pre) rest
       (s\<lparr>emitted := emitted s @ completed_events e n idx pre, invoked := invoked s @ pre\<rparr>)"
proof (induction pre arbitrary: idx s)
  case Nil
  then show ?case by simp
next
  case (Cons c cs)
  then obtain out where out: "subprocess_run e idx c = CompletedProcess out"
    by (cases "subprocess_run e idx c") auto
  from Cons.prems have "all_complete e (Suc idx) cs" by simp
  note IH = Cons.IH [OF this]
  show ?case using Cons.prems out
    by (simp add: Let_def emit_def IH)
qed

lemma for_loop_finished:
  "filter is_finished (emitted (fst (for_loop e n idx cmds s))) = filter is_finished (emitted s)"
  by (induction cmds arbitrary: idx s)
     (simp_all add: Let_def emit_def split: process_result.splits)

lemma for_loop_stopped: "\<not> is_running e idx \<Longrightarrow> for_loop e n idx cmds s = (s, None)"
  by (cases cmds) simp_all

lemma completed_events_finished: "filter is_finished (completed_events e n idx cs) = []"
  by (induction cs arbitrary: idx) simp_all


lemma split_at:
  "k < length cmds \<Longrightarrow> cmds = take k cmds @ cmds ! k # drop (Suc k) cmds"
  by (simp add: id_take_nth_drop)

lemma loop_reaches:
  assumes "k < length cmds" "all_complete e 0 (take k cmds)"
  shows "for_loop e n 0 cmds s =
           for_loop e n k (cmds ! k # drop (Suc k) cmds)
             (s\<lparr>emitted := emitted s @ completed_events e n 0 (take k cmds),
                invoked := invoked s @ take k cmds\<rparr>)"
proof -
  have "for_loop e n 0 (take k cmds @ cmds ! k # drop (Suc k) cmds) s =
          for_loop e n (0 + length (take k cmds)) (cmds ! k # drop (Suc k) cmds)
            (s\<lparr>emitted := emitted s @ completed_events e n 0 (take k cmds),
               invoked := invoked s @ take k cmds\<rparr>)"
    using assms(2) by (rule for_loop_prefix)
  then show ?thesis using assms(1) split_at [of k cmds] by (simp add: min_def)
qed

lemma run_failed:
  assumes "k < length cmds" "mkdir_raises e dir = None" "all_complete e 0 (take k cmds)"
    "is_running e k" "cmds ! k \<noteq> []" "subprocess_run e k (cmds ! k) = CalledProcessError out"
  shows "run e cmds dir =
     \<lparr>success = False, error_msg = ''Failed to process '' @ last (cmds ! k),
      emitted = completed_events e (length cmds) 0 (take k cmds) @
        [Current_file (last (cmds ! k)),
         Output_received (executing_line k (length cmds) (cmds ! k)),
         Output_received (''Error: '' @ out),
         Finished False (''Failed to process '' @ last (cmds ! k))],
      invoked = take (Suc k) cmds\<rparr>"
  using assms
  by (simp add: run_def loop_reaches Let_def emit_def take_Suc_conv_app_nth)


lemma run_stopped:
  assumes "k < length cmds" "mkdir_raises e dir = None" "all_complete e 0 (take k cmds)"
    "\<not> is_running e k"
  shows "run e cmds dir =
     \<lparr>success = True, error_msg = [],
      emitted = completed_events e (length cmds) 0 (take k cmds) @ [Finished True []],
      invoked = take k cmds\<rparr>"
  using assms
  by (simp add: run_def loop_reaches Let_def emit_def)

lemma run_completed:
  assumes "mkdir_raises e dir = None" "all_complete e 0 cmds"
  shows "run e cmds dir =
     \<lparr>success = True, error_msg = [],
      emitted = completed_events e (length cmds) 0 cmds @ [Finished True []],
      invoked = cmds\<rparr>"
  using assms for_loop_prefix [of e 0 cmds "length cmds" "[]"]
  by (simp add: run_def Let_def emit_def)

lemma run_finished_once:
  "filter is_finished (emitted (run e cmds dir)) =
     [Finished (success (run e cmds dir)) (error_msg (run e cmds dir))]"
proof (cases "mkdir_raises e dir")
  case (Some msg)
  then show ?thesis by (simp add: run_def Let_def emit_def)
next
  case None
  define s0 where "s0 = \<lparr>success = True, error_msg = [], emitted = [], invoked = []\<rparr>"
  obtain s' x where L: "for_loop e (length cmds) 0 cmds s0 = (s', x)"
    by (cases "for_loop e (length cmds) 0 cmds s0") auto
  have "filter is_finished (emitted s') = []"
    using for_loop_finished [of e "length cmds" 0 cmds s0] L by (simp add: s0_def)
  then show ?thesis using None L
    by (cases x) (simp_all add: run_def Let_def emit_def s0_def)
qed

section \<open>Plans\<close>

lemma build_commands_nth:
  assumes "build_commands mk w fs = Inr (plan, fs')"
  shows "length plan = length (input_files w)"
    and "i < length plan \<Longrightarrow> invocation_for w (input_files w ! i) = Inr (plan ! i)"
proof -
  have m: "map Inr plan = map (invocation_for w) (input_files w)"
    using build_loop_Inr [of mk w "input_files w" "[]" fs plan fs'] assms
    by (simp add: build_commands_def)
  from m have "length (map Inr plan :: (build_error + string list) list)
                 = length (map (invocation_for w) (input_files w))"
    by simp
  then show len: "length plan = length (input_files w)" by simp
  assume i: "i < length plan"
  have "map (invocation_for w) (input_files w) ! i = (map Inr plan :: (build_error + string list) list) ! i"
    using m by simp
  then show "invocation_for w (input_files w ! i) = Inr (plan ! i)"
    using i len by simp
qed

lemma invocation_for_eq:
  "invocation_for w f =
     Inr ([''gm'', ''convert'', str_path (Path f)] @ options w @
          [str_path (output_file_for w (Path f)
             (if chk_preserve_structure w
              then joinpath (Path (output_dir w)) \<lparr>root = [], names = butlast (names (Path f))\<rparr>
              else Path (output_dir w)))])"
  by (simp add: invocation_for_def output_dir_for_Path cmd_for_eq Let_def)

lemma options_empty_iff:
  "options w = [] \<longleftrightarrow>
     \<not> resize_check w \<and> rotate_combo w = Rot0 \<and> \<not> flip_check w \<and> \<not> flop_check w
     \<and> format_combo w \<notin> {Jpg, Webp, Tiff} \<and> \<not> chk_color_profile w"
  by (cases "rotate_combo w") (auto simp: options_def)

lemma root_Path_abs: "s \<noteq> [] \<Longrightarrow> hd s = CHR ''/'' \<Longrightarrow> root (Path s) \<noteq> []"
  by (simp add: Path_def splitroot_def Let_def)

lemma root_joinpath: "root p \<noteq> [] \<Longrightarrow> root (joinpath p q) \<noteq> []"
  by (simp add: joinpath_def)

lemma str_path_abs: "wf_path p \<Longrightarrow> root p \<noteq> [] \<Longrightarrow> hd (str_path p) = CHR ''/''"
proof -
  assume "wf_path p" and r: "root p \<noteq> []"
  then consider "root p = ''/''" | "root p = ''//''"
    unfolding wf_path_def by blast
  then show ?thesis
    by cases (simp_all add: str_path_def)
qed

lemma wf_rel: "wf_path p \<Longrightarrow> wf_path \<lparr>root = [], names = butlast (names p)\<rparr>"
  by (auto simp: wf_path_def dest: in_set_butlastD)

lemma wf_output_file: "wf_path input_path \<Longrightarrow> wf_path d \<Longrightarrow> wf_path (output_file_for w input_path d)"
  by (auto simp: output_file_for_def wf_joinpath wf_Path split: option.splits)

lemma root_output_file: "root d \<noteq> [] \<Longrightarrow> root (output_file_for w input_path d) \<noteq> []"
  by (auto simp: output_file_for_def root_joinpath split: option.splits)

lemma abs_not_quality: "hd s = CHR ''/'' \<Longrightarrow> s \<noteq> ''-quality''"
  by auto

lemma quality_pair_in_options:
  "format_combo w \<in> {Jpg, Webp, Tiff} \<Longrightarrow>
     \<exists>pre post. options w = pre @ [''-quality'', str_int (quality_spin w)] @ post"
proof -
  assume a: "format_combo w \<in> {Jpg, Webp, Tiff}"
  let ?pre = "(if resize_check w then
        [''-resize'', str_int (width_spin w) @ ''x'' @ str_int (height_spin w)]
          @ (if aspect_check w
             then [''-filter'', ''Lanczos'', ''-unsharp'', ''0.25x0.25+8+0.065''] else [])
      else [])
     @ (case rotate_combo w of
          Rot0 \<Rightarrow> []
        | Rot90 \<Rightarrow> [''-rotate'', ''90'']
        | Rot180 \<Rightarrow> [''-rotate'', ''180'']
        | Rot270 \<Rightarrow> [''-rotate'', ''270''])
     @ (if flip_check w then [''-flip''] else [])
     @ (if flop_check w then [''-flop''] else [])"
  let ?post = "if chk_color_profile w then [''-profile'', ''RGB.icm''] else []"
  have "options w = ?pre @ (if format_combo w \<in> {Jpg, Webp, Tiff}
                            then [''-quality'', str_int (quality_spin w)] else []) @ ?post"
    unfolding options_def by (simp only: append_assoc)
  then have "options w = ?pre @ [''-quality'', str_int (quality_spin w)] @ ?post"
    by (simp only: a if_True)
  then show ?thesis by blast
qed

lemma name_wf:
  "wf_path p \<Longrightarrow> names p \<noteq> [] \<Longrightarrow>
     name p \<noteq> [] \<and> name p \<noteq> ''.'' \<and> CHR ''/'' \<notin> set (name p)"
  by (simp add: wf_path_def name_def)

lemma name_no_sep: "wf_path p \<Longrightarrow> CHR ''/'' \<notin> set (name p)"
  by (cases "names p = []") (simp_all add: name_wf, simp add: name_def)

lemma stem_no_sep: "wf_path p \<Longrightarrow> CHR ''/'' \<notin> set (stem p)"
  using name_no_sep [of p] by (auto simp: stem_def Let_def dest: in_set_takeD)

lemma output_file_single:
  assumes "wf_path ip" and "format_combo w \<noteq> Same_as_input \<or> name ip \<noteq> []"
  shows "\<exists>nm. output_file_for w ip d = joinpath d \<lparr>root = [], names = [nm]\<rparr>
              \<and> nm \<noteq> [] \<and> nm \<noteq> ''.'' \<and> CHR ''/'' \<notin> set nm"
proof (cases "format_combo w = Same_as_input")
  case True
  with assms(2) have n: "name ip \<noteq> []" by simp
  then have "names ip \<noteq> []" by (auto simp: name_def)
  then have nm: "name ip \<noteq> [] \<and> name ip \<noteq> ''.'' \<and> CHR ''/'' \<notin> set (name ip)"
    using assms(1) by (rule name_wf [rotated])
  then have "Path (name ip) = \<lparr>root = [], names = [name ip]\<rparr>" by (simp add: Path_single)
  then have "output_file_for w ip d = joinpath d \<lparr>root = [], names = [name ip]\<rparr>"
    using True by (simp add: output_file_for_def output_format_cases)
  then show ?thesis using nm by blast
next
  case False
  then obtain f where f: "output_format w = Some f" "f \<noteq> []" "CHR ''/'' \<notin> set f"
    by (cases "format_combo w") (simp_all add: output_format_cases)
  let ?nm = "stem ip @ ''.'' @ f"
  have nm: "?nm \<noteq> [] \<and> ?nm \<noteq> ''.'' \<and> CHR ''/'' \<notin> set ?nm"
    using f stem_no_sep [OF assms(1)] by (auto simp: append_eq_Cons_conv)
  then have "Path ?nm = \<lparr>root = [], names = [?nm]\<rparr>" by (simp add: Path_single)
  then have "output_file_for w ip d = joinpath d \<lparr>root = [], names = [?nm]\<rparr>"
    using f by (simp add: output_file_for_def)
  then show ?thesis using nm by blast
qed

section \<open>The events of a run are only ever extended\<close>

lemma for_loop_extends: "prefix (emitted s) (emitted (fst (for_loop e n idx cmds s)))"
proof (induction cmds arbitrary: idx s)
  case Nil
  then show ?case by simp
next
  case (Cons c cs)
  show ?case
  proof (cases "is_running e idx \<and> c \<noteq> []")
    case False
    then show ?thesis by auto
  next
    case True
    show ?thesis
    proof (cases "subprocess_run e idx c")
      case (CompletedProcess out)
      let ?s = "s\<lparr>invoked := invoked s @ [c],
                emitted := emitted s @ [Current_file (last c),
                  Output_received (executing_line idx n c), Output_received out,
                  Progress_incremented]\<rparr>"
      have "for_loop e n idx (c # cs) s = for_loop e n (Suc idx) cs ?s"
        using True CompletedProcess by (simp add: Let_def emit_def)
      moreover have "prefix (emitted ?s) (emitted (fst (for_loop e n (Suc idx) cs ?s)))"
        by (rule Cons.IH)
      ultimately show ?thesis by (auto dest: append_prefixD)
    next
      case (CalledProcessError out)
      then show ?thesis using True by (simp add: Let_def emit_def)
    next
      case (OtherException msg)
      then show ?thesis using True by (simp add: Let_def emit_def)
    qed
  qed
qed

lemma for_loop_current_file:
  assumes "is_running e idx" and "c \<noteq> []"
  shows "prefix (emitted s @ [Current_file (last c)])
           (emitted (fst (for_loop e n idx (c # rest) s)))"
proof (cases "subprocess_run e idx c")
  case (CompletedProcess out)
  let ?s = "s\<lparr>invoked := invoked s @ [c],
            emitted := emitted s @ [Current_file (last c),
              Output_received (executing_line idx n c), Output_received out,
              Progress_incremented]\<rparr>"
  have "for_loop e n idx (c # rest) s = for_loop e n (Suc idx) rest ?s"
    using assms CompletedProcess by (simp add: Let_def emit_def)
  moreover have "prefix (emitted ?s) (emitted (fst (for_loop e n (Suc idx) rest ?s)))"
    by (rule for_loop_extends)
  moreover have "prefix (emitted s @ [Current_file (last c)]) (emitted ?s)" by simp
  ultimately show ?thesis by (simp only: prefix_order.trans)
next
  case (CalledProcessError out)
  then show ?thesis using assms by (simp add: Let_def emit_def)
next
  case (OtherException msg)
  then show ?thesis using assms by (simp add: Let_def emit_def)
qed

lemma run_extends_loop:
  assumes "mkdir_raises e dir = None"
  shows "prefix
           (emitted (fst (for_loop e (length cmds) 0 cmds
              \<lparr>success = True, error_msg = [], emitted = [], invoked = []\<rparr>)))
           (emitted (run e cmds dir))"
  using assms
  by (simp add: run_def Let_def emit_def split: prod.splits option.splits)

lemma run_current_file:
  assumes "k < length cmds" and "mkdir_raises e dir = None"
    and "all_complete e 0 (take k cmds)" and "is_running e k" and "cmds ! k \<noteq> []"
  shows "prefix (completed_events e (length cmds) 0 (take k cmds) @ [Current_file (last (cmds ! k))])
           (emitted (run e cmds dir))"
proof -
  let ?s0 = "\<lparr>success = True, error_msg = [], emitted = [], invoked = []\<rparr>"
  let ?sk = "?s0\<lparr>emitted := emitted ?s0 @ completed_events e (length cmds) 0 (take k cmds),
                   invoked := invoked ?s0 @ take k cmds\<rparr>"
  have "for_loop e (length cmds) 0 cmds ?s0
          = for_loop e (length cmds) k (cmds ! k # drop (Suc k) cmds) ?sk"
    using assms(1,3) by (rule loop_reaches)
  moreover have "prefix (emitted ?sk @ [Current_file (last (cmds ! k))])
          (emitted (fst (for_loop e (length cmds) k (cmds ! k # drop (Suc k) cmds) ?sk)))"
    using assms(4,5) by (rule for_loop_current_file)
  ultimately have "prefix (completed_events e (length cmds) 0 (take k cmds)
                            @ [Current_file (last (cmds ! k))])
          (emitted (fst (for_loop e (length cmds) 0 cmds ?s0)))"
    by simp
  then show ?thesis using run_extends_loop [OF assms(2), of cmds]
    by (rule prefix_order.trans)
qed

section \<open>The example plans\<close>

lemma webp_build: "build_commands mkdir_ok webp_gui () = Inr (webp_plan, ())"
  by code_simp

lemma rotate_build: "build_commands mkdir_ok rotate_gui () = Inr (rotate_plan, ())"
  by code_simp

lemma mirror_build: "build_commands mkdir_ok mirror_gui () = Inr (mirror_plan, ())"
  by code_simp

section \<open>Properties of the Batch Executor\<close>







text \<open>
  Claim C7. When the stop flag is set before the first iteration, no invocation is run
  and no progress tick is emitted, whatever the plan and whether or not creating the
  output directory succeeds.
\<close>

theorem stop_before_first_invocation:
  assumes "\<not> is_running e 0"
  shows "invoked (run e cmds dir) = []
    \<and> Progress_incremented \<notin> set (emitted (run e cmds dir))"
  using assms
  by (cases "mkdir_raises e dir")
     (simp_all add: run_def for_loop_stopped Let_def emit_def)

theorem stop_before_first_invocation_witness:
  "invoked (run env_stopped three_cmds ''/out'') = []
   \<and> Progress_incremented \<notin> set (emitted (run env_stopped three_cmds ''/out''))"
proof -
  have h: "\<not> is_running env_stopped 0" by (simp add: env_stopped_def never_running_def)
  show ?thesis by (rule stop_before_first_invocation [OF h])
qed

text \<open>
  Claim C9. Every run emits exactly one \<open>finished\<close> event, as its last event, carrying
  the final values of \<open>success\<close> and \<open>error_msg\<close>; this covers completion, invocation
  failure, an unexpected exception and cancellation, since nothing is assumed about the
  run. In particular a run stopped by the flag before any failure emits
  \<open>finished(True, "")\<close>, the same event as a run that completes every invocation.
\<close>

theorem finished_exactly_once:
  "filter is_finished (emitted (run e cmds dir))
     = [Finished (success (run e cmds dir)) (error_msg (run e cmds dir))]
   \<and> last (emitted (run e cmds dir))
     = Finished (success (run e cmds dir)) (error_msg (run e cmds dir))
   \<and> (k < length cmds \<and> mkdir_raises e dir = None \<and> all_complete e 0 (take k cmds)
        \<and> \<not> is_running e k
      \<longrightarrow> filter is_finished (emitted (run e cmds dir)) = [Finished True []])
   \<and> (mkdir_raises e dir = None \<and> all_complete e 0 cmds
      \<longrightarrow> filter is_finished (emitted (run e cmds dir)) = [Finished True []])"
proof -
  have "last (emitted (run e cmds dir))
     = Finished (success (run e cmds dir)) (error_msg (run e cmds dir))"
    by (simp add: run_def Let_def emit_def split: prod.splits option.splits)
  then show ?thesis
    by (auto simp: run_finished_once run_stopped run_completed completed_events_finished)
qed

text \<open>A run stopped after two invocations and a run that completes all three.\<close>

theorem finished_exactly_once_witness:
  "filter is_finished (emitted (run env_stop_at_2 three_cmds ''/out'')) = [Finished True []]
   \<and> filter is_finished (emitted (run env_ok three_cmds ''/out'')) = [Finished True []]"
proof -
  have h1: "2 < length three_cmds" by (simp add: three_cmds_def)
  have h2: "mkdir_raises env_stop_at_2 ''/out'' = None"
    by (simp add: env_stop_at_2_def no_raise_def)
  have h3: "all_complete env_stop_at_2 0 (take 2 three_cmds)"
    by (simp add: three_cmds_def env_stop_at_2_def running_before_2_def tool_ok_def
                  numeral_2_eq_2)
  have h4: "\<not> is_running env_stop_at_2 2"
    by (simp add: env_stop_at_2_def running_before_2_def)
  have g1: "mkdir_raises env_ok ''/out'' = None" by (simp add: env_ok_def no_raise_def)
  have g2: "all_complete env_ok 0 three_cmds"
    by (simp add: three_cmds_def env_ok_def always_running_def tool_ok_def)
  from finished_exactly_once [of env_stop_at_2 three_cmds "''/out''" 2] h1 h2 h3 h4
  have a: "filter is_finished (emitted (run env_stop_at_2 three_cmds ''/out''))
             = [Finished True []]"
    by blast
  from finished_exactly_once [of env_ok three_cmds "''/out''" 0] g1 g2
  have b: "filter is_finished (emitted (run env_ok three_cmds ''/out'')) = [Finished True []]"
    by blast
  from a b show ?thesis by simp
qed

text \<open>
  Claim C10. The path that identifies item \<open>k\<close> is the last element of its argument
  list: the current-file event, emitted right after the events of the \<open>k\<close> items before
  it, carries it, and so does the message of \<open>finished\<close> when invocation \<open>k\<close> fails.
  For a plan made by \<open>build_commands\<close> that element is the destination path, while the
  source path of the input file is the element at index 2.
\<close>

theorem item_named_by_destination:
  assumes "build_commands mk w fs = Inr (cmds, fs')" and "k < length cmds"
    and "mkdir_raises e dir = None"
    and "all_complete e 0 (take k cmds)" and "is_running e k"
  shows "\<exists>output_path.
           output_dir_for w (Path (input_files w ! k)) = Inr output_path
         \<and> last (cmds ! k) = str_path (output_file_for w (Path (input_files w ! k)) output_path)
         \<and> cmds ! k ! 2 = str_path (Path (input_files w ! k))
         \<and> prefix (completed_events e (length cmds) 0 (take k cmds)
                     @ [Current_file (last (cmds ! k))])
                  (emitted (run e cmds dir))
         \<and> (\<forall>out. subprocess_run e k (cmds ! k) = CalledProcessError out \<longrightarrow>
               last (emitted (run e cmds dir))
                 = Finished False (''Failed to process '' @ last (cmds ! k)))"
proof -
  let ?f = "input_files w ! k"
  let ?d = "if chk_preserve_structure w
            then joinpath (Path (output_dir w)) \<lparr>root = [], names = butlast (names (Path ?f))\<rparr>
            else Path (output_dir w)"
  have d: "output_dir_for w (Path ?f) = Inr ?d" by (rule output_dir_for_Path)
  have "invocation_for w ?f = Inr (cmds ! k)" using build_commands_nth(2) [OF assms(1,2)] .
  then have p: "cmds ! k = [''gm'', ''convert'', str_path (Path ?f)] @ options w
                          @ [str_path (output_file_for w (Path ?f) ?d)]"
    by (simp only: invocation_for_eq sum.inject)
  then have l: "last (cmds ! k) = str_path (output_file_for w (Path ?f) ?d)"
    and src: "cmds ! k ! 2 = str_path (Path ?f)" and ne: "cmds ! k \<noteq> []"
    by simp_all
  have cf: "prefix (completed_events e (length cmds) 0 (take k cmds)
                     @ [Current_file (last (cmds ! k))])
                  (emitted (run e cmds dir))"
    using assms(2,3,4,5) ne by (rule run_current_file)
  have fin: "last (emitted (run e cmds dir))
               = Finished False (''Failed to process '' @ last (cmds ! k))"
    if "subprocess_run e k (cmds ! k) = CalledProcessError out" for out
    using run_failed [OF assms(2,3,4,5) ne that] by simp
  show ?thesis using d l src cf fin by (intro exI [of _ ?d]) simp
qed

text \<open>
  The second of two conversions to \<open>webp\<close> fails: the event and the message name
  \<open>/out/b.webp\<close>, not \<open>/in/b.jpg\<close>.
\<close>

theorem item_named_by_destination_witness:
  "webp_plan ! 1 ! 2 = str_path (Path (input_files webp_gui ! 1))
   \<and> prefix (completed_events env_fail (length webp_plan) 0 (take 1 webp_plan)
              @ [Current_file (last (webp_plan ! 1))])
        (emitted (run env_fail webp_plan ''/out''))
   \<and> last (emitted (run env_fail webp_plan ''/out''))
       = Finished False (''Failed to process '' @ last (webp_plan ! 1))
   \<and> last (webp_plan ! 1) = ''/out/b.webp''"
proof -
  have h1: "1 < length webp_plan" by (simp add: webp_plan_def)
  have h2: "mkdir_raises env_fail ''/out'' = None" by (simp add: env_fail_def no_raise_def)
  have h3: "all_complete env_fail 0 (take 1 webp_plan)"
    by (simp add: webp_plan_def env_fail_def always_running_def tool_fails_at_1_def)
  have h4: "is_running env_fail 1" by (simp add: env_fail_def always_running_def)
  have h5: "subprocess_run env_fail 1 (webp_plan ! 1)
              = CalledProcessError ''gm convert: Unable to open file''"
    by (simp add: env_fail_def tool_fails_at_1_def)
  have l: "last (webp_plan ! 1) = ''/out/b.webp''" by (simp add: webp_plan_def)
  from item_named_by_destination [OF webp_build h1 h2 h3 h4] h5 l show ?thesis by blast
qed

section \<open>Properties of the Command Builder\<close>

text \<open>
  Claim C3, as amended. Every invocation of a plan begins with the tool name \<open>gm\<close>, the
  verb \<open>convert\<close> and the source path, and ends with the destination path as its last
  element. The options lie between the source and the destination, so the source comes
  immediately before the destination exactly when no option is emitted.
\<close>

theorem invocation_shape:
  assumes "build_commands mk w fs = Inr (plan, fs')" and "i < length plan"
  shows "\<exists>output_path.
           output_dir_for w (Path (input_files w ! i)) = Inr output_path
         \<and> plan ! i = [''gm'', ''convert'', str_path (Path (input_files w ! i))]
                        @ butlast (drop 3 (plan ! i))
                        @ [str_path (output_file_for w (Path (input_files w ! i)) output_path)]
         \<and> (butlast (drop 3 (plan ! i)) = [] \<longleftrightarrow>
              \<not> resize_check w \<and> rotate_combo w = Rot0 \<and> \<not> flip_check w \<and> \<not> flop_check w
              \<and> output_format w \<notin> {Some ''jpg'', Some ''webp'', Some ''tiff''}
              \<and> \<not> chk_color_profile w)"
proof -
  let ?f = "input_files w ! i"
  let ?d = "if chk_preserve_structure w
            then joinpath (Path (output_dir w)) \<lparr>root = [], names = butlast (names (Path ?f))\<rparr>
            else Path (output_dir w)"
  have d: "output_dir_for w (Path ?f) = Inr ?d" by (rule output_dir_for_Path)
  have "invocation_for w ?f = Inr (plan ! i)" using build_commands_nth(2) [OF assms] .
  then have p: "plan ! i = [''gm'', ''convert'', str_path (Path ?f)] @ options w
                          @ [str_path (output_file_for w (Path ?f) ?d)]"
    by (simp only: invocation_for_eq sum.inject)
  then have o: "butlast (drop 3 (plan ! i)) = options w" by (simp add: butlast_append)
  show ?thesis
    using d p o options_empty_iff [of w] lossy_format_iff [of w] by (intro exI [of _ ?d]) simp
qed

theorem invocation_shape_witness:
  "\<exists>output_path.
      output_dir_for rotate_gui (Path (input_files rotate_gui ! 0)) = Inr output_path
    \<and> rotate_plan ! 0 = [''gm'', ''convert'', str_path (Path (input_files rotate_gui ! 0))]
         @ butlast (drop 3 (rotate_plan ! 0))
         @ [str_path (output_file_for rotate_gui (Path (input_files rotate_gui ! 0)) output_path)]
    \<and> butlast (drop 3 (rotate_plan ! 0)) \<noteq> []"
proof -
  have i: "0 < length rotate_plan" by (simp add: rotate_plan_def)
  have r: "rotate_combo rotate_gui \<noteq> Rot0" by (simp add: rotate_gui_def)
  from invocation_shape [OF rotate_build i] r show ?thesis by blast
qed

text \<open>
  Claim C3 as stated fails: with a rotation and a flip chosen, the element before the
  destination is \<open>-flip\<close>, not the source path.
\<close>

theorem source_not_next_to_destination:
  "build_commands mkdir_ok rotate_gui ()
     = Inr ([[''gm'', ''convert'', ''/in/a.png'', ''-rotate'', ''90'', ''-flip'', ''/out/a.png'']], ())
   \<and> [''gm'', ''convert'', ''/in/a.png'', ''-rotate'', ''90'', ''-flip'', ''/out/a.png''] ! 5
       \<noteq> ''/in/a.png''"
proof -
  have "build_commands mkdir_ok rotate_gui ()
     = Inr ([[''gm'', ''convert'', ''/in/a.png'', ''-rotate'', ''90'', ''-flip'', ''/out/a.png'']], ())"
    by code_simp
  then show ?thesis by simp
qed

text \<open>
  Claim C4. An invocation holds \<open>-quality\<close> among the arguments between its source and
  its destination if and only if the output format is one of \<open>jpg\<close>, \<open>webp\<close>, \<open>tiff\<close>,
  whatever the quality value; when it does, the quality value follows the flag. When
  the input path and the output directory are absolute, the same holds of the whole
  argument list: for every other format, "Same as input" included, \<open>-quality\<close> appears
  nowhere in it.
\<close>

theorem quality_flag_iff_lossy_format:
  assumes "build_commands mk w fs = Inr (plan, fs')" and "i < length plan"
  shows "(''-quality'' \<in> set (butlast (drop 3 (plan ! i)))
            \<longleftrightarrow> output_format w \<in> {Some ''jpg'', Some ''webp'', Some ''tiff''})
    \<and> (output_format w \<in> {Some ''jpg'', Some ''webp'', Some ''tiff''}
            \<longleftrightarrow> format_combo w \<in> {Jpg, Webp, Tiff})
    \<and> (output_format w \<in> {Some ''jpg'', Some ''webp'', Some ''tiff''} \<longrightarrow>
          (\<exists>pre post. butlast (drop 3 (plan ! i))
                         = pre @ [''-quality'', str_int (quality_spin w)] @ post))
    \<and> (input_files w ! i \<noteq> [] \<and> hd (input_files w ! i) = CHR ''/''
        \<and> output_dir w \<noteq> [] \<and> hd (output_dir w) = CHR ''/'' \<longrightarrow>
          (''-quality'' \<in> set (plan ! i)
             \<longleftrightarrow> output_format w \<in> {Some ''jpg'', Some ''webp'', Some ''tiff''}))"
proof -
  let ?f = "input_files w ! i"
  let ?d = "if chk_preserve_structure w
            then joinpath (Path (output_dir w)) \<lparr>root = [], names = butlast (names (Path ?f))\<rparr>
            else Path (output_dir w)"
  let ?dst = "output_file_for w (Path ?f) ?d"
  have "invocation_for w ?f = Inr (plan ! i)" using build_commands_nth(2) [OF assms] .
  then have p: "plan ! i = [''gm'', ''convert'', str_path (Path ?f)] @ options w
                          @ [str_path ?dst]"
    by (simp only: invocation_for_eq sum.inject)
  then have o: "butlast (drop 3 (plan ! i)) = options w" by (simp add: butlast_append)
  have wfd: "wf_path ?d" by (simp add: wf_joinpath wf_Path wf_rel)
  have wfdst: "wf_path ?dst" using wfd by (simp add: wf_output_file wf_Path)
  have c1: "''-quality'' \<in> set (butlast (drop 3 (plan ! i)))
              \<longleftrightarrow> output_format w \<in> {Some ''jpg'', Some ''webp'', Some ''tiff''}"
    by (simp only: o quality_in_options lossy_format_iff)
  have c3: "\<exists>pre post. butlast (drop 3 (plan ! i))
                         = pre @ [''-quality'', str_int (quality_spin w)] @ post"
    if "output_format w \<in> {Some ''jpg'', Some ''webp'', Some ''tiff''}"
    using that quality_pair_in_options [of w] by (simp only: o lossy_format_iff)
  have c4: "''-quality'' \<in> set (plan ! i)
              \<longleftrightarrow> output_format w \<in> {Some ''jpg'', Some ''webp'', Some ''tiff''}"
    if abs: "input_files w ! i \<noteq> [] \<and> hd (input_files w ! i) = CHR ''/''
             \<and> output_dir w \<noteq> [] \<and> hd (output_dir w) = CHR ''/''"
  proof -
    have "root (Path ?f) \<noteq> []" using abs by (simp add: root_Path_abs)
    then have "hd (str_path (Path ?f)) = CHR ''/''" by (simp add: str_path_abs wf_Path)
    then have src: "str_path (Path ?f) \<noteq> ''-quality''" by (rule abs_not_quality)
    have "root (Path (output_dir w)) \<noteq> []" using abs by (simp add: root_Path_abs)
    then have "root ?d \<noteq> []" by (simp add: root_joinpath)
    then have "root ?dst \<noteq> []" by (rule root_output_file)
    then have "hd (str_path ?dst) = CHR ''/''" using wfdst by (simp add: str_path_abs)
    then have dst: "str_path ?dst \<noteq> ''-quality''" by (rule abs_not_quality)
    have "''-quality'' \<in> set (plan ! i) \<longleftrightarrow> ''-quality'' \<in> set (options w)"
      using src dst by (auto simp: p)
    then show ?thesis by (simp only: quality_in_options lossy_format_iff)
  qed
  show ?thesis using c1 c3 c4 lossy_format_iff [of w] by blast
qed

text \<open>A conversion to \<open>webp\<close> has the flag, one that keeps the format does not.\<close>

theorem quality_flag_iff_lossy_format_witness:
  "''-quality'' \<in> set (butlast (drop 3 (webp_plan ! 0)))
   \<and> ''-quality'' \<in> set (webp_plan ! 0)
   \<and> (\<exists>pre post. butlast (drop 3 (webp_plan ! 0))
                     = pre @ [''-quality'', str_int (quality_spin webp_gui)] @ post)
   \<and> ''-quality'' \<notin> set (butlast (drop 3 (rotate_plan ! 0)))
   \<and> ''-quality'' \<notin> set (rotate_plan ! 0)"
proof -
  have i: "0 < length webp_plan" by (simp add: webp_plan_def)
  have j: "0 < length rotate_plan" by (simp add: rotate_plan_def)
  have f: "format_combo webp_gui \<in> {Jpg, Webp, Tiff}" by (simp add: webp_gui_def)
  have g: "format_combo rotate_gui \<notin> {Jpg, Webp, Tiff}" by (simp add: rotate_gui_def)
  have a: "input_files webp_gui ! 0 \<noteq> [] \<and> hd (input_files webp_gui ! 0) = CHR ''/''
           \<and> output_dir webp_gui \<noteq> [] \<and> hd (output_dir webp_gui) = CHR ''/''"
    by (simp add: webp_gui_def)
  have b: "input_files rotate_gui ! 0 \<noteq> [] \<and> hd (input_files rotate_gui ! 0) = CHR ''/''
           \<and> output_dir rotate_gui \<noteq> [] \<and> hd (output_dir rotate_gui) = CHR ''/''"
    by (simp add: rotate_gui_def)
  from quality_flag_iff_lossy_format [OF webp_build i] f a
  have 1: "''-quality'' \<in> set (butlast (drop 3 (webp_plan ! 0)))
           \<and> ''-quality'' \<in> set (webp_plan ! 0)
           \<and> (\<exists>pre post. butlast (drop 3 (webp_plan ! 0))
                     = pre @ [''-quality'', str_int (quality_spin webp_gui)] @ post)"
    by blast
  from quality_flag_iff_lossy_format [OF rotate_build j] g b
  have 2: "''-quality'' \<notin> set (butlast (drop 3 (rotate_plan ! 0)))
           \<and> ''-quality'' \<notin> set (rotate_plan ! 0)"
    by blast
  from 1 2 show ?thesis by blast
qed

text \<open>
  Claim C5. A plan has exactly one invocation per input file, in the order of the input
  list: the invocation at index \<open>i\<close> is the one built for the input at index \<open>i\<close> and
  names that input as its source.
\<close>

theorem plan_one_per_input:
  assumes "build_commands mk w fs = Inr (plan, fs')"
  shows "length plan = length (input_files w)
    \<and> (\<forall>i<length plan.
          invocation_for w (input_files w ! i) = Inr (plan ! i)
          \<and> plan ! i ! 2 = str_path (Path (input_files w ! i)))"
proof -
  have "plan ! i ! 2 = str_path (Path (input_files w ! i))" if "i < length plan" for i
  proof -
    have "invocation_for w (input_files w ! i) = Inr (plan ! i)"
      using build_commands_nth(2) [OF assms that] .
    then have "plan ! i = [''gm'', ''convert'', str_path (Path (input_files w ! i))]
        @ options w
        @ [str_path (output_file_for w (Path (input_files w ! i))
             (if chk_preserve_structure w
              then joinpath (Path (output_dir w))
                     \<lparr>root = [], names = butlast (names (Path (input_files w ! i)))\<rparr>
              else Path (output_dir w)))]"
      by (simp only: invocation_for_eq sum.inject)
    then show ?thesis by simp
  qed
  then show ?thesis using build_commands_nth [OF assms] by simp
qed

theorem plan_one_per_input_witness:
  "length webp_plan = length (input_files webp_gui)
   \<and> invocation_for webp_gui (input_files webp_gui ! 1) = Inr (webp_plan ! 1)
   \<and> webp_plan ! 1 ! 2 = str_path (Path (input_files webp_gui ! 1))"
proof -
  have i: "1 < length webp_plan" by (simp add: webp_plan_def)
  from plan_one_per_input [OF webp_build] i show ?thesis by blast
qed

text \<open>
  Claim C6. For an input that has a file name (or whenever an output format is chosen),
  the parent directory of the destination path is the chosen output directory when the
  directory structure is not preserved, and the output directory joined with the parent
  of the input made relative to its anchor when it is. Every path accepted by the
  extension filter has a file name, so no input file is left out.
\<close>

theorem destination_parent:
  assumes "build_commands mk w fs = Inr (plan, fs')" and "i < length plan"
    and "format_combo w \<noteq> Same_as_input \<or> name (Path (input_files w ! i)) \<noteq> []"
  shows "(\<not> chk_preserve_structure w \<longrightarrow>
            parent (Path (last (plan ! i))) = Path (output_dir w))
    \<and> (chk_preserve_structure w \<longrightarrow>
          (\<exists>rel. relative_to (parent (Path (input_files w ! i)))
                              (Path (anchor (Path (input_files w ! i)))) = Inr rel
               \<and> parent (Path (last (plan ! i))) = joinpath (Path (output_dir w)) rel))"
proof -
  let ?f = "input_files w ! i"
  let ?rel = "\<lparr>root = [], names = butlast (names (Path ?f))\<rparr>"
  let ?d = "if chk_preserve_structure w
            then joinpath (Path (output_dir w)) ?rel
            else Path (output_dir w)"
  let ?dst = "output_file_for w (Path ?f) ?d"
  have "invocation_for w ?f = Inr (plan ! i)" using build_commands_nth(2) [OF assms(1,2)] .
  then have p: "plan ! i = [''gm'', ''convert'', str_path (Path ?f)] @ options w
                          @ [str_path ?dst]"
    by (simp only: invocation_for_eq sum.inject)
  then have l: "last (plan ! i) = str_path ?dst" by simp
  have wfd: "wf_path ?d" by (simp add: wf_joinpath wf_Path wf_rel)
  have wfdst: "wf_path ?dst" using wfd by (simp add: wf_output_file wf_Path)
  obtain nm where "?dst = joinpath ?d \<lparr>root = [], names = [nm]\<rparr>"
    using output_file_single [OF wf_Path assms(3), of ?d] by blast
  then have "parent ?dst = ?d" by (simp only: parent_joinpath_single)
  then have "parent (Path (last (plan ! i))) = ?d"
    using wfdst by (simp only: l Path_str_path)
  then show ?thesis using relative_to_anchor [of ?f] by simp
qed

text \<open>
  Without mirroring the parent of the destination is \<open>/out\<close>, with a format chosen or
  with the format unchanged; with mirroring \<open>/home/u/pics/a.jpg\<close> goes to
  \<open>/out/home/u/pics\<close>.
\<close>

theorem destination_parent_witness:
  "parent (Path (last (webp_plan ! 0))) = Path (output_dir webp_gui)
   \<and> parent (Path (last (rotate_plan ! 0))) = Path (output_dir rotate_gui)
   \<and> (\<exists>rel. relative_to (parent (Path (input_files mirror_gui ! 0)))
                         (Path (anchor (Path (input_files mirror_gui ! 0)))) = Inr rel
           \<and> parent (Path (last (mirror_plan ! 0))) = joinpath (Path (output_dir mirror_gui)) rel)"
proof -
  have i: "0 < length webp_plan" by (simp add: webp_plan_def)
  have j: "0 < length mirror_plan" by (simp add: mirror_plan_def)
  have k: "0 < length rotate_plan" by (simp add: rotate_plan_def)
  have f: "format_combo webp_gui \<noteq> Same_as_input
           \<or> name (Path (input_files webp_gui ! 0)) \<noteq> []"
    by (simp add: webp_gui_def)
  have g: "format_combo mirror_gui \<noteq> Same_as_input
           \<or> name (Path (input_files mirror_gui ! 0)) \<noteq> []"
    by (simp add: mirror_gui_def)
  have "accepted (input_files rotate_gui ! 0)" by code_simp
  then have h: "format_combo rotate_gui \<noteq> Same_as_input
           \<or> name (Path (input_files rotate_gui ! 0)) \<noteq> []"
    by (simp add: accepted_has_name)
  have p: "\<not> chk_preserve_structure webp_gui" by (simp add: webp_gui_def)
  have q: "chk_preserve_structure mirror_gui" by (simp add: mirror_gui_def)
  have r: "\<not> chk_preserve_structure rotate_gui" by (simp add: rotate_gui_def)
  from destination_parent [OF webp_build i f] p
  have 1: "parent (Path (last (webp_plan ! 0))) = Path (output_dir webp_gui)" by blast
  from destination_parent [OF mirror_build j g] q
  have 2: "\<exists>rel. relative_to (parent (Path (input_files mirror_gui ! 0)))
                         (Path (anchor (Path (input_files mirror_gui ! 0)))) = Inr rel
           \<and> parent (Path (last (mirror_plan ! 0))) = joinpath (Path (output_dir mirror_gui)) rel"
    by blast
  from destination_parent [OF rotate_build k h] r
  have 3: "parent (Path (last (rotate_plan ! 0))) = Path (output_dir rotate_gui)" by blast
  from 1 2 3 show ?thesis by blast
qed

text \<open>
  Claim C8. The plan depends on the window state only: two runs of the builder on the
  same input files, output directory and options return the same plan, whatever the
  state of the file system at either run and whatever \<open>mkdir\<close> does to it (the second
  run may start from the file system that the first one left).
\<close>

theorem build_commands_deterministic:
  assumes "build_commands mk1 w fs1 = Inr (plan1, fs1')"
    and "build_commands mk2 w fs2 = Inr (plan2, fs2')"
  shows "plan1 = plan2"
proof -
  have "map Inr plan1 = map (invocation_for w) (input_files w)"
    using build_loop_Inr [of mk1 w "input_files w" "[]" fs1 plan1 fs1'] assms(1)
    by (simp add: build_commands_def)
  moreover have "map Inr plan2 = map (invocation_for w) (input_files w)"
    using build_loop_Inr [of mk2 w "input_files w" "[]" fs2 plan2 fs2'] assms(2)
    by (simp add: build_commands_def)
  ultimately have "map Inr plan1 = (map Inr plan2 :: (build_error + string list) list)"
    by simp
  then show ?thesis by simp
qed

text \<open>
  The plan computed on one file system is the plan that the builder returns on another.
\<close>

theorem build_commands_deterministic_witness:
  "\<exists>fs'. build_commands mkdir_log webp_gui [] = Inr (webp_plan, fs')"
proof -
  have "\<exists>plan fs'. build_loop mkdir_log webp_gui (input_files webp_gui) [] [] = Inr (plan, fs')"
    by (rule build_loop_total) (simp add: mkdir_log_def)
  then obtain plan fs' where h: "build_commands mkdir_log webp_gui [] = Inr (plan, fs')"
    by (auto simp: build_commands_def)
  from build_commands_deterministic [OF webp_build h] h show ?thesis by blast
qed

end
